theory Spec2Isabelle
  imports Main "HOL-Library.AList" "HOL-Library.Sublist"
begin

section \<open>Entries (entry.go)\<close>

text \<open>
  Instants of \<^verbatim>\<open>time.Time\<close> and durations are integers (nanoseconds). The zero
  \<^verbatim>\<open>time.Time\<close>, which \<^verbatim>\<open>IsZero\<close> tests for, is \<open>None\<close>; the clock never returns it.
  A \<^verbatim>\<open>[]byte\<close> is a byte string or \<^verbatim>\<open>nil\<close> (\<open>None\<close>). The \<^verbatim>\<open>int64\<close> sizes and
  counters are unbounded integers: they count bytes and entries held in memory and calls
  made, which stay far below \<open>2^63\<close>.
\<close>

type_synonym bytes = "string option"

record Entry =
  Key :: string
  Value :: bytes
  CreatedAt :: int
  UpdatedAt :: int
  ExpiresAt :: "int option"
  TTL :: int
  Hits :: int
  Size :: int

definition len :: "bytes \<Rightarrow> int" where
  "len v = (case v of None \<Rightarrow> 0 | Some b \<Rightarrow> int (length b))"

definition IsExpired :: "int \<Rightarrow> Entry \<Rightarrow> bool" where
  "IsExpired now e = (case ExpiresAt e of None \<Rightarrow> False | Some t \<Rightarrow> t < now)"

definition Clone :: "Entry \<Rightarrow> Entry" where
  "Clone e = \<lparr>Key = Key e,
              Value = Some (case Value e of None \<Rightarrow> [] | Some b \<Rightarrow> b),
              CreatedAt = CreatedAt e, UpdatedAt = UpdatedAt e, ExpiresAt = ExpiresAt e,
              TTL = TTL e, Hits = Hits e, Size = Size e\<rparr>"

definition NewEntry :: "int \<Rightarrow> string \<Rightarrow> bytes \<Rightarrow> int \<Rightarrow> Entry" where
  "NewEntry now key val ttl =
     (let size = len val;
          expiresAt = (if ttl > 0 then Some (now + ttl) else None)
      in \<lparr>Key = key, Value = val, CreatedAt = now, UpdatedAt = now, ExpiresAt = expiresAt,
          TTL = ttl, Hits = 0, Size = size\<rparr>)"

section \<open>Errors (errors.go)\<close>

datatype sentinel =
  ErrNotFound | ErrExpired | ErrInvalidKey | ErrInvalidValue | ErrBackendClosed | ErrMemoryLimit

text \<open>
  \<open>NewError op key err\<close> is \<^verbatim>\<open>cache.NewError\<close>, \<open>Bare\<close> a sentinel returned unwrapped,
  \<open>Errorf\<close> an error built by \<^verbatim>\<open>fmt.Errorf\<close> (its message prefix), and \<open>NilDeref\<close> the
  panic of reading a field through a nil pointer.
\<close>

datatype error =
  NewError string string sentinel | Bare sentinel | Errorf string | NilDeref

section \<open>Statistics (stats.go)\<close>

record StatsCollector =
  hits :: int
  misses :: int
  evictions :: int
  entries :: int
  size_sc :: int
  errors :: int

definition NewStatsCollector :: StatsCollector where
  "NewStatsCollector = \<lparr>hits = 0, misses = 0, evictions = 0, entries = 0, size_sc = 0, errors = 0\<rparr>"

definition RecordHit :: "StatsCollector \<Rightarrow> StatsCollector" where
  "RecordHit sc = sc\<lparr>hits := hits sc + 1\<rparr>"

definition RecordMiss :: "StatsCollector \<Rightarrow> StatsCollector" where
  "RecordMiss sc = sc\<lparr>misses := misses sc + 1\<rparr>"

definition RecordEviction :: "StatsCollector \<Rightarrow> StatsCollector" where
  "RecordEviction sc = sc\<lparr>evictions := evictions sc + 1\<rparr>"

definition SetEntries :: "int \<Rightarrow> StatsCollector \<Rightarrow> StatsCollector" where
  "SetEntries n sc = sc\<lparr>entries := n\<rparr>"

definition SetSize :: "int \<Rightarrow> StatsCollector \<Rightarrow> StatsCollector" where
  "SetSize n sc = sc\<lparr>size_sc := n\<rparr>"

record Stats =
  Stats_Hits :: int
  Stats_Misses :: int
  Stats_Evictions :: int
  Stats_Entries :: int
  Stats_Size :: int
  Stats_Errors :: int

definition StatsCollector_Stats :: "StatsCollector \<Rightarrow> Stats" where
  "StatsCollector_Stats sc =
     \<lparr>Stats_Hits = hits sc, Stats_Misses = misses sc, Stats_Evictions = evictions sc,
      Stats_Entries = entries sc, Stats_Size = size_sc sc, Stats_Errors = errors sc\<rparr>"

section \<open>The in-memory backend (backends/memory.go)\<close>

datatype EvictionPolicy = EvictionLRU | EvictionLFU | EvictionFIFO

record MemoryConfig =
  MaxMemory :: int
  MaxEntries :: int
  CleanupInterval :: int
  EvictionPolicy :: EvictionPolicy

definition DefaultMemoryConfig :: MemoryConfig where
  "DefaultMemoryConfig =
     \<lparr>MaxMemory = 0, MaxEntries = 0, CleanupInterval = 60000000000, EvictionPolicy = EvictionLRU\<rparr>"

text \<open>
  The \<^verbatim>\<open>sync.Map\<close> is an association list: \<^verbatim>\<open>Load\<close> is \<open>map_of\<close>, \<^verbatim>\<open>Store\<close> is
  \<open>AList.update\<close>, \<^verbatim>\<open>Delete\<close> is \<open>AList.delete\<close>, and \<^verbatim>\<open>Range\<close> visits the list in
  order. Go leaves the order of \<^verbatim>\<open>Range\<close> open; the theorems below hold for every
  order of the list. The map holds pointers to entries, so a field assignment through a
  loaded entry is an update of the stored entry. An operation takes the instant \<open>now\<close>
  that its calls of \<^verbatim>\<open>time.Now\<close> return and runs alone: the interleaving of concurrent
  calls is outside the model.
\<close>

record Memory =
  data :: "(string \<times> Entry) list"
  stats :: StatsCollector
  config :: MemoryConfig
  totalSize :: int
  entryCount :: int
  closed :: bool

definition NewMemory :: "MemoryConfig \<Rightarrow> Memory" where
  "NewMemory cfg =
     \<lparr>data = [], stats = NewStatsCollector, config = cfg, totalSize = 0, entryCount = 0,
      closed = False\<rparr>"

definition updateSize :: "int \<Rightarrow> Memory \<Rightarrow> Memory" where
  "updateSize delta m =
     (let total = totalSize m + delta;
          cnt = (if delta > 0 then entryCount m + 1
                 else if delta < 0 then entryCount m - 1 else entryCount m)
      in m\<lparr>totalSize := total, entryCount := cnt,
            stats := SetEntries cnt (SetSize total (stats m))\<rparr>)"

text \<open>The three \<^verbatim>\<open>Range\<close> callbacks of \<^verbatim>\<open>evictOne\<close>: the accumulator is the closure's
  variables (the running extreme, \<^verbatim>\<open>evictKey\<close>, \<^verbatim>\<open>evictEntry\<close>).\<close>

definition lruStep :: "int option \<times> string \<times> Entry option \<Rightarrow> string \<times> Entry
    \<Rightarrow> int option \<times> string \<times> Entry option" where
  "lruStep acc kv =
     (case acc of (oldestTime, evictKey, evictEntry) \<Rightarrow>
        if (case oldestTime of None \<Rightarrow> True | Some t \<Rightarrow> UpdatedAt (snd kv) < t)
        then (Some (UpdatedAt (snd kv)), fst kv, Some (snd kv))
        else acc)"

definition lfuStep :: "int \<times> string \<times> Entry option \<Rightarrow> string \<times> Entry
    \<Rightarrow> int \<times> string \<times> Entry option" where
  "lfuStep acc kv =
     (case acc of (lowestHits, evictKey, evictEntry) \<Rightarrow>
        if lowestHits = - 1 \<or> Hits (snd kv) < lowestHits
        then (Hits (snd kv), fst kv, Some (snd kv))
        else acc)"

definition fifoStep :: "int option \<times> string \<times> Entry option \<Rightarrow> string \<times> Entry
    \<Rightarrow> int option \<times> string \<times> Entry option" where
  "fifoStep acc kv =
     (case acc of (oldestTime, evictKey, evictEntry) \<Rightarrow>
        if (case oldestTime of None \<Rightarrow> True | Some t \<Rightarrow> CreatedAt (snd kv) < t)
        then (Some (CreatedAt (snd kv)), fst kv, Some (snd kv))
        else acc)"

definition selectVictim :: "EvictionPolicy \<Rightarrow> (string \<times> Entry) list \<Rightarrow> string \<times> Entry option" where
  "selectVictim p al =
     (case p of
        EvictionLRU \<Rightarrow> snd (foldl lruStep (None, [], None) al)
      | EvictionLFU \<Rightarrow> snd (foldl lfuStep (- 1, [], None) al)
      | EvictionFIFO \<Rightarrow> snd (foldl fifoStep (None, [], None) al))"

definition evictOne :: "Memory \<Rightarrow> error option \<times> Memory" where
  "evictOne m =
     (case selectVictim (EvictionPolicy (config m)) (data m) of (evictKey, evictEntry) \<Rightarrow>
        if evictKey = [] then (Some (Bare ErrMemoryLimit), m)
        else (case evictEntry of
                None \<Rightarrow> (Some NilDeref, m\<lparr>data := AList.delete evictKey (data m)\<rparr>)
              | Some e \<Rightarrow>
                  (None, m\<lparr>data := AList.delete evictKey (data m),
                           totalSize := totalSize m - Size e,
                           entryCount := entryCount m - 1,
                           stats := RecordEviction (stats m)\<rparr>)))"

text \<open>A victim is an entry of the map, so a successful eviction makes the map shorter:
  this is what makes the loop of \<^verbatim>\<open>makeRoom\<close> terminate.\<close>

lemma lruStep_inv:
  "snd (foldl lruStep acc al) = snd acc \<or>
   (\<exists>k e. snd (foldl lruStep acc al) = (k, Some e) \<and> (k, e) \<in> set al)"
proof (induction al arbitrary: acc)
  case Nil
  show ?case by simp
next
  case (Cons kv al)
  obtain k e where kv: "kv = (k, e)" by (cases kv)
  obtain t ek ee where acc: "acc = (t, ek, ee)" by (cases acc)
  from Cons.IH [of "lruStep acc kv"] show ?case
    by (auto simp: lruStep_def kv acc split: if_splits option.splits)
qed

lemma lfuStep_inv:
  "snd (foldl lfuStep acc al) = snd acc \<or>
   (\<exists>k e. snd (foldl lfuStep acc al) = (k, Some e) \<and> (k, e) \<in> set al)"
proof (induction al arbitrary: acc)
  case Nil
  show ?case by simp
next
  case (Cons kv al)
  obtain k e where kv: "kv = (k, e)" by (cases kv)
  obtain t ek ee where acc: "acc = (t, ek, ee)" by (cases acc)
  from Cons.IH [of "lfuStep acc kv"] show ?case
    by (auto simp: lfuStep_def kv acc split: if_splits)
qed

lemma fifoStep_inv:
  "snd (foldl fifoStep acc al) = snd acc \<or>
   (\<exists>k e. snd (foldl fifoStep acc al) = (k, Some e) \<and> (k, e) \<in> set al)"
proof (induction al arbitrary: acc)
  case Nil
  show ?case by simp
next
  case (Cons kv al)
  obtain k e where kv: "kv = (k, e)" by (cases kv)
  obtain t ek ee where acc: "acc = (t, ek, ee)" by (cases acc)
  from Cons.IH [of "fifoStep acc kv"] show ?case
    by (auto simp: fifoStep_def kv acc split: if_splits option.splits)
qed

lemma selectVictim_cases:
  "selectVictim p al = ([], None) \<or>
   (\<exists>k e. selectVictim p al = (k, Some e) \<and> (k, e) \<in> set al)"
proof (cases p)
  case EvictionLRU
  with lruStep_inv [of "(None, [], None)" al] show ?thesis
    by (simp add: selectVictim_def)
next
  case EvictionLFU
  with lfuStep_inv [of "(- 1, [], None)" al] show ?thesis
    by (simp add: selectVictim_def)
next
  case EvictionFIFO
  with fifoStep_inv [of "(None, [], None)" al] show ?thesis
    by (simp add: selectVictim_def)
qed

lemma length_delete_less:
  "(k, e) \<in> set al \<Longrightarrow> length (AList.delete k al) < length al"
  unfolding AList.delete_eq
  by (rule length_filter_less [of "(k, e)"]) auto

lemma evictOne_shrinks:
  assumes "evictOne m = (None, m')"
  shows "length (data m') < length (data m)"
proof -
  from selectVictim_cases [of "EvictionPolicy (config m)" "data m"] show ?thesis
  proof
    assume "selectVictim (EvictionPolicy (config m)) (data m) = ([], None)"
    with assms show ?thesis by (simp add: evictOne_def)
  next
    assume "\<exists>k e. selectVictim (EvictionPolicy (config m)) (data m) = (k, Some e) \<and> (k, e) \<in> set (data m)"
    then obtain k e where sel: "selectVictim (EvictionPolicy (config m)) (data m) = (k, Some e)"
      and mem: "(k, e) \<in> set (data m)" by blast
    from assms sel have "data m' = AList.delete k (data m)"
      by (auto simp: evictOne_def split: if_splits)
    with length_delete_less [OF mem] show ?thesis by simp
  qed
qed

text \<open>The loop of \<^verbatim>\<open>makeRoom\<close> under the memory limit.\<close>

function evictLoop :: "int \<Rightarrow> Memory \<Rightarrow> error option \<times> Memory" where
  "evictLoop newSize m =
     (if totalSize m + newSize > MaxMemory (config m)
      then (case evictOne m of
              (Some err, m') \<Rightarrow> (Some err, m')
            | (None, m') \<Rightarrow> evictLoop newSize m')
      else (None, m))"
  by pat_completeness auto
termination
  by (relation "measure (\<lambda>(newSize, m). length (data m))") (auto dest: evictOne_shrinks [OF sym])

declare evictLoop.simps [simp del]

definition makeRoom :: "int \<Rightarrow> Memory \<Rightarrow> error option \<times> Memory" where
  "makeRoom newSize m =
     (case (if MaxEntries (config m) > 0 \<and> entryCount m \<ge> MaxEntries (config m)
            then evictOne m else (None, m)) of
        (Some err, m1) \<Rightarrow> (Some err, m1)
      | (None, m1) \<Rightarrow>
          if MaxMemory (config m1) > 0 then evictLoop newSize m1 else (None, m1))"

definition Memory_Get :: "int \<Rightarrow> Memory \<Rightarrow> string \<Rightarrow> (error + Entry) \<times> Memory" where
  "Memory_Get now m key =
     (if closed m then (Inl (NewError ''Get'' key ErrBackendClosed), m)
      else if key = [] then (Inl (NewError ''Get'' key ErrInvalidKey), m)
      else (case map_of (data m) key of
              None \<Rightarrow> (Inl (NewError ''Get'' key ErrNotFound), m\<lparr>stats := RecordMiss (stats m)\<rparr>)
            | Some entry \<Rightarrow>
                if IsExpired now entry
                then (let m1 = m\<lparr>stats := RecordMiss (stats m)\<rparr>;
                          m2 = m1\<lparr>data := AList.delete key (data m1)\<rparr>;
                          m3 = updateSize (- Size entry) m2
                      in (Inl (NewError ''Get'' key ErrExpired),
                          m3\<lparr>stats := RecordEviction (stats m3)\<rparr>))
                else (let entry' = entry\<lparr>Hits := Hits entry + 1, UpdatedAt := now\<rparr>;
                          m1 = m\<lparr>data := AList.update key entry' (data m)\<rparr>
                      in (Inr (Clone entry'), m1\<lparr>stats := RecordHit (stats m1)\<rparr>))))"

definition Memory_Set :: "int \<Rightarrow> Memory \<Rightarrow> string \<Rightarrow> bytes \<Rightarrow> int \<Rightarrow> error option \<times> Memory" where
  "Memory_Set now m key val ttl =
     (if closed m then (Some (NewError ''Set'' key ErrBackendClosed), m)
      else if key = [] then (Some (NewError ''Set'' key ErrInvalidKey), m)
      else if val = None then (Some (NewError ''Set'' key ErrInvalidValue), m)
      else (let entry = NewEntry now key val ttl in
            case makeRoom (Size entry) m of
              (Some err, m1) \<Rightarrow>
                (Some (case err of Bare s \<Rightarrow> NewError ''Set'' key s | other \<Rightarrow> other), m1)
            | (None, m1) \<Rightarrow>
                (let m2 = (case map_of (data m1) key of
                             Some oldEntry \<Rightarrow> updateSize (- Size oldEntry) m1
                           | None \<Rightarrow> m1);
                     m3 = m2\<lparr>data := AList.update key entry (data m2)\<rparr>
                 in (None, updateSize (Size entry) m3))))"

definition Memory_Delete :: "Memory \<Rightarrow> string \<Rightarrow> error option \<times> Memory" where
  "Memory_Delete m key =
     (if closed m then (Some (NewError ''Delete'' key ErrBackendClosed), m)
      else (case map_of (data m) key of
              Some entry \<Rightarrow>
                (None, updateSize (- Size entry) (m\<lparr>data := AList.delete key (data m)\<rparr>))
            | None \<Rightarrow> (None, m)))"

definition Memory_Clear :: "Memory \<Rightarrow> error option \<times> Memory" where
  "Memory_Clear m =
     (if closed m then (Some (NewError ''Clear'' [] ErrBackendClosed), m)
      else (None, m\<lparr>data := [], totalSize := 0, entryCount := 0,
                     stats := SetEntries 0 (SetSize 0 (stats m))\<rparr>))"

text \<open>\<^verbatim>\<open>matchPattern\<close>, with the \<^verbatim>\<open>strings\<close> functions it calls.\<close>

definition HasPrefix :: "string \<Rightarrow> string \<Rightarrow> bool" where
  "HasPrefix s pre = (take (length pre) s = pre)"

definition HasSuffix :: "string \<Rightarrow> string \<Rightarrow> bool" where
  "HasSuffix s suf = (length suf \<le> length s \<and> drop (length s - length suf) s = suf)"

definition TrimPrefix :: "string \<Rightarrow> string \<Rightarrow> string" where
  "TrimPrefix s pre = (if HasPrefix s pre then drop (length pre) s else s)"

definition TrimSuffix :: "string \<Rightarrow> string \<Rightarrow> string" where
  "TrimSuffix s suf = (if HasSuffix s suf then take (length s - length suf) s else s)"

definition matchPattern :: "string \<Rightarrow> string \<Rightarrow> bool" where
  "matchPattern key pattern =
     (if pattern = ''*'' then True
      else if HasSuffix pattern ''*'' then HasPrefix key (TrimSuffix pattern ''*'')
      else if HasPrefix pattern ''*'' then HasSuffix key (TrimPrefix pattern ''*'')
      else key = pattern)"

definition Memory_Keys :: "int \<Rightarrow> Memory \<Rightarrow> string \<Rightarrow> error + string list" where
  "Memory_Keys now m pattern =
     (if closed m then Inl (NewError ''Keys'' [] ErrBackendClosed)
      else Inr (map fst (filter (\<lambda>(k, entry). matchPattern k pattern \<and> \<not> IsExpired now entry)
                           (data m))))"

definition Memory_Stats :: "Memory \<Rightarrow> error + Stats" where
  "Memory_Stats m =
     (if closed m then Inl (NewError ''Stats'' [] ErrBackendClosed)
      else Inr ((StatsCollector_Stats (stats m))
                  \<lparr>Stats_Entries := entryCount m, Stats_Size := totalSize m\<rparr>))"

text \<open>\<^verbatim>\<open>Close\<close> sets the flag before it calls \<^verbatim>\<open>Clear\<close>, whose result it drops.\<close>

definition Memory_Close :: "Memory \<Rightarrow> error option \<times> Memory" where
  "Memory_Close m =
     (if closed m then (None, m)
      else (None, snd (Memory_Clear (m\<lparr>closed := True\<rparr>))))"

text \<open>The sweep: collect the expired keys, then \<^verbatim>\<open>LoadAndDelete\<close> each.\<close>

fun sweep :: "Memory \<Rightarrow> string list \<Rightarrow> Memory" where
  "sweep m [] = m"
| "sweep m (key # toDelete) =
     (case map_of (data m) key of
        Some entry \<Rightarrow>
          (let m1 = updateSize (- Size entry) (m\<lparr>data := AList.delete key (data m)\<rparr>)
           in sweep (m1\<lparr>stats := RecordEviction (stats m1)\<rparr>) toDelete)
      | None \<Rightarrow> sweep m toDelete)"

definition cleanupExpired :: "int \<Rightarrow> Memory \<Rightarrow> Memory" where
  "cleanupExpired now m =
     sweep m (map fst (filter (\<lambda>(k, entry). IsExpired now entry) (data m)))"

section \<open>The sync engine (sync.go)\<close>

text \<open>
  Modelled from the spec: the event types of the SDK's \<^verbatim>\<open>resources\<close> package, which is
  not part of the repository. An event carries a kind, which is a string, and a list of
  change records; a change record names a resource type and id and carries a raw payload.
  The kinds the engine knows are the constants \<^verbatim>\<open>EventTypeAdd\<close>, \<^verbatim>\<open>EventTypeUpdate\<close> and
  \<^verbatim>\<open>EventTypeDelete\<close>, which the specification calls add, update and delete.
\<close>

record 'raw EventData =
  Data_ID :: string
  Data_Type :: string
  RawData :: 'raw

record 'raw Event =
  Event_Type :: string
  Event_Data :: "'raw EventData list"

definition EventTypeAdd :: string where "EventTypeAdd = ''add''"
definition EventTypeUpdate :: string where "EventTypeUpdate = ''update''"
definition EventTypeDelete :: string where "EventTypeDelete = ''delete''"

text \<open>
  \<open>marshal\<close> is \<^verbatim>\<open>json.Marshal\<close> on the raw payload, a parameter of the model; it
  returns \<open>None\<close> where \<^verbatim>\<open>json.Marshal\<close> returns an error. \<^verbatim>\<open>processEventData\<close> fails
  with the refusal of \<^verbatim>\<open>json.Marshal\<close>, with the backend's error, or with an unknown
  kind. \<open>LastError\<close> holds the error whose message the Go field holds, \<open>None\<close> for the
  empty string.
\<close>

datatype sync_error = MarshalFailed | BackendFailed error | UnknownEventType string

record SyncStats =
  EventsProcessed :: int
  AddEvents :: int
  UpdateEvents :: int
  DeleteEvents :: int
  SyncErrors :: int
  LastEventTime :: "int option"
  LastError :: "sync_error option"
  LastErrorTime :: "int option"
  AvgLatency :: int

text \<open>The engine's backend is the in-memory backend. The two optional callbacks of the
  configuration observe events and errors and change nothing of the engine.\<close>

record SyncEngine =
  backend :: Memory
  sync_stats :: SyncStats
  running :: bool

definition NewSyncEngine :: "Memory \<Rightarrow> SyncEngine" where
  "NewSyncEngine b =
     \<lparr>backend = b,
      sync_stats = \<lparr>EventsProcessed = 0, AddEvents = 0, UpdateEvents = 0, DeleteEvents = 0,
                     SyncErrors = 0, LastEventTime = None, LastError = None,
                     LastErrorTime = None, AvgLatency = 0\<rparr>,
      running = False\<rparr>"

definition Resource :: "string \<Rightarrow> string \<Rightarrow> string" where
  "Resource resourceType ident = resourceType @ '':'' @ ident"

definition handleAdd :: "('raw \<Rightarrow> string option) \<Rightarrow> int \<Rightarrow> SyncEngine \<Rightarrow> string \<Rightarrow> 'raw EventData
    \<Rightarrow> sync_error option \<times> SyncEngine" where
  "handleAdd marshal now s key d =
     (case marshal (RawData d) of
        None \<Rightarrow> (Some MarshalFailed, s)
      | Some jsonData \<Rightarrow>
          (case Memory_Set now (backend s) key (Some jsonData) 0 of
             (err, b) \<Rightarrow> (map_option BackendFailed err, s\<lparr>backend := b\<rparr>)))"

definition handleUpdate :: "('raw \<Rightarrow> string option) \<Rightarrow> int \<Rightarrow> SyncEngine \<Rightarrow> string \<Rightarrow> 'raw EventData
    \<Rightarrow> sync_error option \<times> SyncEngine" where
  "handleUpdate marshal now s key d =
     (case marshal (RawData d) of
        None \<Rightarrow> (Some MarshalFailed, s)
      | Some jsonData \<Rightarrow>
          (case Memory_Set now (backend s) key (Some jsonData) 0 of
             (err, b) \<Rightarrow> (map_option BackendFailed err, s\<lparr>backend := b\<rparr>)))"

definition handleDelete :: "SyncEngine \<Rightarrow> string \<Rightarrow> sync_error option \<times> SyncEngine" where
  "handleDelete s key =
     (case Memory_Delete (backend s) key of
        (err, b) \<Rightarrow> (map_option BackendFailed err, s\<lparr>backend := b\<rparr>))"

definition handleError :: "int \<Rightarrow> sync_error \<Rightarrow> SyncEngine \<Rightarrow> SyncEngine" where
  "handleError now err s =
     s\<lparr>sync_stats := (sync_stats s)\<lparr>SyncErrors := SyncErrors (sync_stats s) + 1,
                                      LastError := Some err, LastErrorTime := Some now\<rparr>\<rparr>"

definition processEventData :: "('raw \<Rightarrow> string option) \<Rightarrow> int \<Rightarrow> SyncEngine \<Rightarrow> string
    \<Rightarrow> 'raw EventData \<Rightarrow> sync_error option \<times> SyncEngine" where
  "processEventData marshal now s eventType d =
     (let key = Resource (Data_Type d) (Data_ID d) in
      if eventType = EventTypeAdd then
        handleAdd marshal now
          (s\<lparr>sync_stats := (sync_stats s)\<lparr>AddEvents := AddEvents (sync_stats s) + 1\<rparr>\<rparr>) key d
      else if eventType = EventTypeUpdate then
        handleUpdate marshal now
          (s\<lparr>sync_stats := (sync_stats s)\<lparr>UpdateEvents := UpdateEvents (sync_stats s) + 1\<rparr>\<rparr>) key d
      else if eventType = EventTypeDelete then
        handleDelete
          (s\<lparr>sync_stats := (sync_stats s)\<lparr>DeleteEvents := DeleteEvents (sync_stats s) + 1\<rparr>\<rparr>) key
      else (Some (UnknownEventType eventType), s))"

text \<open>The loop of \<^verbatim>\<open>processEvent\<close> over the change records of an event.\<close>

fun processData :: "('raw \<Rightarrow> string option) \<Rightarrow> int \<Rightarrow> string \<Rightarrow> SyncEngine
    \<Rightarrow> 'raw EventData list \<Rightarrow> SyncEngine" where
  "processData marshal now eventType s [] = s"
| "processData marshal now eventType s (d # ds) =
     (case processEventData marshal now s eventType d of
        (Some err, s') \<Rightarrow> processData marshal now eventType (handleError now err s') ds
      | (None, s') \<Rightarrow> processData marshal now eventType s' ds)"

text \<open>Go's integer division truncates towards zero.\<close>

definition quot :: "int \<Rightarrow> int \<Rightarrow> int" where
  "quot a b = sgn a * sgn b * (\<bar>a\<bar> div \<bar>b\<bar>)"

text \<open>\<open>processEvent\<close> at the instant \<open>now\<close>, with \<open>latency\<close> the duration that
  \<^verbatim>\<open>time.Since(start)\<close> measures at its end.\<close>

definition processEvent :: "('raw \<Rightarrow> string option) \<Rightarrow> int \<Rightarrow> int \<Rightarrow> SyncEngine \<Rightarrow> 'raw Event
    \<Rightarrow> SyncEngine" where
  "processEvent marshal now latency s event =
     (let s1 = s\<lparr>sync_stats := (sync_stats s)\<lparr>EventsProcessed := EventsProcessed (sync_stats s) + 1,
                                             LastEventTime := Some now\<rparr>\<rparr>;
          s2 = processData marshal now (Event_Type event) s1 (Event_Data event);
          avg = AvgLatency (sync_stats s2)
      in s2\<lparr>sync_stats := (sync_stats s2)
             \<lparr>AvgLatency := (if avg = 0 then latency else quot (avg * 9 + latency) 10)\<rparr>\<rparr>)"

text \<open>The subscription loop over the events the feed delivers, each with the instant
  and the latency of its processing.\<close>

fun syncLoop :: "('raw \<Rightarrow> string option) \<Rightarrow> SyncEngine \<Rightarrow> (int \<times> int \<times> 'raw Event) list
    \<Rightarrow> SyncEngine" where
  "syncLoop marshal s [] = s"
| "syncLoop marshal s ((now, latency, event) # feed) =
     syncLoop marshal (processEvent marshal now latency s event) feed"

section \<open>The file backend (backends/file.go)\<close>

text \<open>
  The file system is a map from paths to file contents. The gob encoding of the entry
  list is the pair \<open>enc\<close>, \<open>dec\<close>, parameters of the model: \<open>dec\<close> returns \<open>None\<close> where
  the decoder returns an error. The outcome of the file system calls of \<^verbatim>\<open>Save\<close> is the
  parameter \<open>io\<close>; a failed \<^verbatim>\<open>Save\<close> leaves the file at the cache's path as it was.
\<close>

record FileConfig =
  FilePath :: string
  AutoSaveInterval :: int
  LoadOnStart :: bool
  MemoryConfig :: "MemoryConfig option"




text \<open>The loop of \<^verbatim>\<open>Save\<close> over the keys: an entry whose \<^verbatim>\<open>Get\<close> fails is skipped.\<close>

fun collect :: "int \<Rightarrow> Memory \<Rightarrow> string list \<Rightarrow> Entry list \<times> Memory" where
  "collect now m [] = ([], m)"
| "collect now m (key # keys) =
     (case Memory_Get now m key of
        (Inl err, m') \<Rightarrow> collect now m' keys
      | (Inr entry, m') \<Rightarrow> (case collect now m' keys of (es, m'') \<Rightarrow> (entry # es, m'')))"


text \<open>The loop of \<^verbatim>\<open>Load\<close> over the decoded es; the result of \<^verbatim>\<open>Set\<close> is dropped.\<close>

fun loadEntries :: "int \<Rightarrow> Memory \<Rightarrow> Entry list \<Rightarrow> Memory" where
  "loadEntries now m [] = m"
| "loadEntries now m (entry # es) =
     (if IsExpired now entry then loadEntries now m es
      else (let ttl = (case ExpiresAt entry of None \<Rightarrow> 0 | Some t \<Rightarrow> t - now) in
            if ExpiresAt entry \<noteq> None \<and> ttl < 0 then loadEntries now m es
            else loadEntries now (snd (Memory_Set now m (Key entry) (Value entry) ttl)) es))"



section \<open>The predicates of the statements\<close>

text \<open>
  What every operation keeps true of the map, from \<open>NewMemory\<close> on: keys are distinct and
  non-empty (\<^verbatim>\<open>Set\<close> refuses the empty key), an entry is stored under its own key with a
  value that is not nil and a size that is the length of the value, and \<open>totalSize\<close> is the
  sum of the stored sizes.
\<close>

definition sumSizes :: "(string \<times> Entry) list \<Rightarrow> int" where
  "sumSizes al = sum_list (map (\<lambda>kv. Size (snd kv)) al)"

definition entry_ok :: "string \<times> Entry \<Rightarrow> bool" where
  "entry_ok kv = (fst kv \<noteq> [] \<and> Key (snd kv) = fst kv \<and> Value (snd kv) \<noteq> None \<and>
                  Size (snd kv) = len (Value (snd kv)))"

definition store_inv :: "Memory \<Rightarrow> bool" where
  "store_inv m = (distinct (map fst (data m)) \<and> list_all entry_ok (data m) \<and>
                  totalSize m = sumSizes (data m))"

text \<open>The state after the eviction of the entry \<open>e\<close> stored under \<open>k\<close>.\<close>

definition evicted :: "Memory \<Rightarrow> string \<Rightarrow> Entry \<Rightarrow> Memory" where
  "evicted m k e = m\<lparr>data := AList.delete k (data m), totalSize := totalSize m - Size e,
                      entryCount := entryCount m - 1, stats := RecordEviction (stats m)\<rparr>"

text \<open>The states of a backend: a new one, and the state after any operation or sweep.\<close>

inductive reachable :: "Memory \<Rightarrow> bool" where
  reachable_New: "reachable (NewMemory cfg)"
| reachable_Get: "reachable m \<Longrightarrow> reachable (snd (Memory_Get now m key))"
| reachable_Set: "reachable m \<Longrightarrow> reachable (snd (Memory_Set now m key val ttl))"
| reachable_Delete: "reachable m \<Longrightarrow> reachable (snd (Memory_Delete m key))"
| reachable_Clear: "reachable m \<Longrightarrow> reachable (snd (Memory_Clear m))"
| reachable_Close: "reachable m \<Longrightarrow> reachable (snd (Memory_Close m))"
| reachable_sweep: "reachable m \<Longrightarrow> reachable (cleanupExpired now m)"

text \<open>
  The pattern grammar of the specification with its four cases taken in order, the first
  that applies deciding: \<open>*\<close> matches everything; else a pattern that ends with \<open>*\<close>
  matches the keys that start with the rest of it; else a pattern that starts with \<open>*\<close>
  matches the keys that end with the rest of it; else a pattern matches only itself.
\<close>

definition ordered_match :: "string \<Rightarrow> string \<Rightarrow> bool" where
  "ordered_match p k =
     (if p = ''*'' then True
      else if p \<noteq> [] \<and> last p = CHR ''*'' then prefix (butlast p) k
      else if p \<noteq> [] \<and> hd p = CHR ''*'' then suffix (tl p) k
      else k = p)"

text \<open>
  Expiry in the words of the specification: an entry with an expiry time is expired when
  the current time is at or past it. \<open>IsExpired\<close>, the test of the code, asks for a current
  time strictly past it.
\<close>

definition spec_expired :: "int \<Rightarrow> Entry \<Rightarrow> bool" where
  "spec_expired now e = (case ExpiresAt e of None \<Rightarrow> False | Some t \<Rightarrow> t \<le> now)"

text \<open>
  What the decoder of \<^verbatim>\<open>encoding/gob\<close> rebuilds of an entry that the encoder was given:
  the encoder does not transmit a field that holds the zero value of its type, an empty
  slice included, so a value of length 0 comes back as \<^verbatim>\<open>nil\<close>; every other field of
  the record comes back as it was.
\<close>

definition gob_entry :: "Entry \<Rightarrow> Entry" where
  "gob_entry e = e\<lparr>Value := (if Value e = Some [] then None else Value e)\<rparr>"

text \<open>The kinds the engine counts, the sum of its three counters of kinds, the event of
  an item of the feed, and a change record for the examples.\<close>

definition known_kind :: "string \<Rightarrow> bool" where
  "known_kind t = (t = EventTypeAdd \<or> t = EventTypeUpdate \<or> t = EventTypeDelete)"

definition kind_sum :: "SyncStats \<Rightarrow> int" where
  "kind_sum st = AddEvents st + UpdateEvents st + DeleteEvents st"

definition event_of :: "int \<times> int \<times> 'raw Event \<Rightarrow> 'raw Event" where
  "event_of x = snd (snd x)"

definition example_record :: "string EventData" where
  "example_record = \<lparr>Data_ID = ''1'', Data_Type = ''light'', RawData = ''{}''\<rparr>"

text \<open>The copy of an entry that a successful \<^verbatim>\<open>Get\<close> returns.\<close>

definition touched :: "int \<Rightarrow> Entry \<Rightarrow> Entry" where
  "touched now e = Clone (e\<lparr>Hits := Hits e + 1, UpdatedAt := now\<rparr>)"



section \<open>The invariant of the store\<close>

lemma len_nonneg: "0 \<le> len v"
  by (simp add: len_def split: option.splits)

lemma sumSizes_delete:
  "distinct (map fst al) \<Longrightarrow> map_of al k = Some e \<Longrightarrow>
   sumSizes (AList.delete k al) = sumSizes al - Size e"
proof (induction al)
  case Nil
  then show ?case by simp
next
  case (Cons kv al)
  obtain k' e' where kv: "kv = (k', e')" by (cases kv)
  show ?case
  proof (cases "k' = k")
    case True
    with Cons.prems kv have "e' = e" and "k \<notin> fst ` set al" by auto
    then have "AList.delete k al = al" by (simp add: delete_id)
    with True kv \<open>e' = e\<close> show ?thesis by (simp add: sumSizes_def)
  next
    case False
    with Cons kv show ?thesis by (simp add: sumSizes_def)
  qed
qed

lemma sumSizes_delete_absent:
  "map_of al k = None \<Longrightarrow> sumSizes (AList.delete k al) = sumSizes al"
  by (simp add: delete_id map_of_eq_None_iff)

lemma sumSizes_update_absent:
  "map_of al k = None \<Longrightarrow> sumSizes (AList.update k e al) = sumSizes al + Size e"
  by (induction al) (auto simp: sumSizes_def)

lemma sumSizes_update_present:
  "map_of al k = Some old \<Longrightarrow> sumSizes (AList.update k e al) = sumSizes al - Size old + Size e"
  by (induction al) (auto simp: sumSizes_def)

lemma list_all_delete: "list_all P al \<Longrightarrow> list_all P (AList.delete k al)"
  by (simp add: AList.delete_eq list_all_iff)

lemma list_all_update:
  "list_all P al \<Longrightarrow> P (k, e) \<Longrightarrow> list_all P (AList.update k e al)"
  by (induction al) auto

lemma store_inv_key:
  "store_inv m \<Longrightarrow> map_of (data m) k = Some e \<Longrightarrow> k \<noteq> [] \<and> Key e = k \<and> Value e \<noteq> None \<and> Size e = len (Value e)"
  by (auto simp: store_inv_def list_all_iff entry_ok_def dest!: map_of_SomeD)

lemma store_inv_NewMemory: "store_inv (NewMemory cfg)"
  by (simp add: store_inv_def NewMemory_def sumSizes_def)

lemma store_inv_remove:
  assumes "store_inv m" "map_of (data m) k = Some e"
  shows "store_inv (m\<lparr>data := AList.delete k (data m), totalSize := totalSize m - Size e,
                      entryCount := c, stats := s\<rparr>)"
  using assms by (simp add: store_inv_def distinct_delete list_all_delete sumSizes_delete)

section \<open>Eviction\<close>

lemma lruStep_keeps: "snd (snd acc) \<noteq> None \<Longrightarrow> snd (snd (foldl lruStep acc al)) \<noteq> None"
  by (induction al arbitrary: acc) (auto simp: lruStep_def split: prod.splits)

lemma lfuStep_keeps: "snd (snd acc) \<noteq> None \<Longrightarrow> snd (snd (foldl lfuStep acc al)) \<noteq> None"
  by (induction al arbitrary: acc) (auto simp: lfuStep_def split: prod.splits)

lemma fifoStep_keeps: "snd (snd acc) \<noteq> None \<Longrightarrow> snd (snd (foldl fifoStep acc al)) \<noteq> None"
  by (induction al arbitrary: acc) (auto simp: fifoStep_def split: prod.splits)

text \<open>Every policy takes the first entry that \<^verbatim>\<open>Range\<close> visits as its first candidate,
  so a map that is not empty always yields a victim.\<close>

lemma selectVictim_nonempty:
  assumes "al \<noteq> []"
  shows "\<exists>k e. selectVictim p al = (k, Some e) \<and> (k, e) \<in> set al"
proof -
  from assms obtain kv al' where al: "al = kv # al'" by (cases al) auto
  have "snd (selectVictim p al) \<noteq> None"
  proof (cases p)
    case EvictionLRU
    with lruStep_keeps [of "lruStep (None, [], None) kv" al'] show ?thesis
      by (simp add: selectVictim_def al lruStep_def)
  next
    case EvictionLFU
    with lfuStep_keeps [of "lfuStep (- 1, [], None) kv" al'] show ?thesis
      by (simp add: selectVictim_def al lfuStep_def)
  next
    case EvictionFIFO
    with fifoStep_keeps [of "fifoStep (None, [], None) kv" al'] show ?thesis
      by (simp add: selectVictim_def al fifoStep_def)
  qed
  with selectVictim_cases [of p al] show ?thesis by auto
qed

lemma selectVictim_empty: "selectVictim p [] = ([], None)"
  by (cases p) (simp_all add: selectVictim_def)

lemma evictOne_cases:
  "evictOne m = (Some (Bare ErrMemoryLimit), m) \<or>
   (\<exists>k e. (k, e) \<in> set (data m) \<and> k \<noteq> [] \<and> evictOne m = (None, evicted m k e))"
proof -
  from selectVictim_cases [of "EvictionPolicy (config m)" "data m"] show ?thesis
  proof
    assume "selectVictim (EvictionPolicy (config m)) (data m) = ([], None)"
    then show ?thesis by (simp add: evictOne_def)
  next
    assume "\<exists>k e. selectVictim (EvictionPolicy (config m)) (data m) = (k, Some e) \<and>
      (k, e) \<in> set (data m)"
    then obtain k e where sel: "selectVictim (EvictionPolicy (config m)) (data m) = (k, Some e)"
      and mem: "(k, e) \<in> set (data m)" by blast
    show ?thesis
    proof (cases "k = []")
      case True
      with sel show ?thesis by (simp add: evictOne_def)
    next
      case False
      with sel have "evictOne m = (None, evicted m k e)" by (simp add: evictOne_def evicted_def)
      with mem False show ?thesis by blast
    qed
  qed
qed

lemma evictOne_empty: "data m = [] \<Longrightarrow> evictOne m = (Some (Bare ErrMemoryLimit), m)"
  by (simp add: evictOne_def selectVictim_empty)

lemma evictOne_success:
  assumes "data m \<noteq> []" and "list_all entry_ok (data m)"
  shows "\<exists>k e. (k, e) \<in> set (data m) \<and> evictOne m = (None, evicted m k e)"
proof -
  from selectVictim_nonempty [OF assms(1)] obtain k e
    where sel: "selectVictim (EvictionPolicy (config m)) (data m) = (k, Some e)"
      and mem: "(k, e) \<in> set (data m)" by blast
  from mem assms(2) have "k \<noteq> []" by (auto simp: list_all_iff entry_ok_def)
  with sel mem show ?thesis by (auto simp: evictOne_def evicted_def)
qed

text \<open>A rule for what \<^verbatim>\<open>makeRoom\<close> and its loop keep: a relation between the state before
  and the state after that holds of no eviction, and is carried along by each eviction.\<close>

lemma evictLoop_rel:
  assumes refl: "\<And>m. P m m"
    and step: "\<And>m m1 m2. evictOne m = (None, m1) \<Longrightarrow> P m1 m2 \<Longrightarrow> P m m2"
    and err: "\<And>m m1 e. evictOne m = (Some e, m1) \<Longrightarrow> P m m1"
  shows "evictLoop n m = (r, m') \<Longrightarrow> P m m'"
proof (induction n m rule: evictLoop.induct)
  case (1 n m)
  show ?case
  proof (cases "totalSize m + n > MaxMemory (config m)")
    case False
    with "1.prems" refl show ?thesis by (simp add: evictLoop.simps)
  next
    case True
    obtain r1 m1 where ev: "evictOne m = (r1, m1)" by (cases "evictOne m")
    show ?thesis
    proof (cases r1)
      case None
      with True ev "1.prems" have "evictLoop n m1 = (r, m')" by (simp add: evictLoop.simps)
      with "1.IH" [OF True ev [symmetric] None] have "P m1 m'" by simp
      with step ev None show ?thesis by blast
    next
      case (Some e)
      with True ev "1.prems" have "m' = m1" by (simp add: evictLoop.simps)
      with err ev Some show ?thesis by blast
    qed
  qed
qed

lemma makeRoom_rel:
  assumes refl: "\<And>m. P m m"
    and step: "\<And>m m1 m2. evictOne m = (None, m1) \<Longrightarrow> P m1 m2 \<Longrightarrow> P m m2"
    and err: "\<And>m m1 e. evictOne m = (Some e, m1) \<Longrightarrow> P m m1"
    and run: "makeRoom n m = (r, m')"
  shows "P m m'"
proof -
  have loop: "\<And>m r m'. evictLoop n m = (r, m') \<Longrightarrow> P m m'"
    by (rule evictLoop_rel [of P, OF refl step err])
  have tail: "P m1 m'"
    if "(if MaxMemory (config m1) > 0 then evictLoop n m1 else (None, m1)) = (r, m')" for m1
    using that loop [of m1 r m'] refl [of m1] by (auto split: if_splits)
  show ?thesis
  proof (cases "MaxEntries (config m) > 0 \<and> entryCount m \<ge> MaxEntries (config m)")
    case False
    with run tail [of m] show ?thesis by (simp add: makeRoom_def)
  next
    case True
    obtain r1 m1 where ev: "evictOne m = (r1, m1)" by (cases "evictOne m")
    show ?thesis
    proof (cases r1)
      case None
      with True ev run tail [of m1] have "P m1 m'" by (simp add: makeRoom_def)
      with step ev None show ?thesis by blast
    next
      case (Some e)
      with True ev run have "m' = m1" by (simp add: makeRoom_def)
      with err ev Some show ?thesis by blast
    qed
  qed
qed

lemma evictOne_frame:
  "evictOne m = (r, m') \<Longrightarrow> config m' = config m \<and> closed m' = closed m \<and>
     map_of (data m') \<subseteq>\<^sub>m map_of (data m)"
  using evictOne_cases [of m]
  by (auto simp: evicted_def delete_conv' map_le_def split: if_splits)

lemma makeRoom_frame:
  assumes "makeRoom n m = (r, m')"
  shows "config m' = config m \<and> closed m' = closed m \<and> map_of (data m') \<subseteq>\<^sub>m map_of (data m)"
proof (rule makeRoom_rel [of "\<lambda>m m'. config m' = config m \<and> closed m' = closed m \<and>
      map_of (data m') \<subseteq>\<^sub>m map_of (data m)", OF _ _ _ assms])
  fix m show "config m = config m \<and> closed m = closed m \<and> map_of (data m) \<subseteq>\<^sub>m map_of (data m)"
    by simp
next
  fix m m1 m2
  assume "evictOne m = (None, m1)"
    and "config m2 = config m1 \<and> closed m2 = closed m1 \<and> map_of (data m2) \<subseteq>\<^sub>m map_of (data m1)"
  with evictOne_frame [of m None m1]
  show "config m2 = config m \<and> closed m2 = closed m \<and> map_of (data m2) \<subseteq>\<^sub>m map_of (data m)"
    by (auto intro: map_le_trans)
next
  fix m m1 e
  assume "evictOne m = (Some e, m1)"
  with evictOne_frame [of m "Some e" m1]
  show "config m1 = config m \<and> closed m1 = closed m \<and> map_of (data m1) \<subseteq>\<^sub>m map_of (data m)"
    by simp
qed

lemma store_inv_evictOne:
  assumes "store_inv m" and "evictOne m = (r, m')"
  shows "store_inv m'"
proof -
  from evictOne_cases [of m] show ?thesis
  proof
    assume "evictOne m = (Some (Bare ErrMemoryLimit), m)"
    with assms show ?thesis by simp
  next
    assume "\<exists>k e. (k, e) \<in> set (data m) \<and> k \<noteq> [] \<and> evictOne m = (None, evicted m k e)"
    then obtain k e where mem: "(k, e) \<in> set (data m)" and ev: "evictOne m = (None, evicted m k e)"
      by blast
    from assms(1) mem have "map_of (data m) k = Some e" by (simp add: store_inv_def)
    from store_inv_remove [OF assms(1) this] ev assms(2) show ?thesis
      by (simp add: evicted_def)
  qed
qed

lemma store_inv_makeRoom:
  assumes "makeRoom n m = (r, m')" and "store_inv m"
  shows "store_inv m'"
proof -
  have "store_inv m \<longrightarrow> store_inv m'"
    by (rule makeRoom_rel [of "\<lambda>m m'. store_inv m \<longrightarrow> store_inv m'", OF _ _ _ assms(1)])
      (auto dest: store_inv_evictOne)
  with assms(2) show ?thesis by simp
qed

section \<open>Every operation keeps the invariant\<close>

lemma store_inv_Get:
  assumes "store_inv m"
  shows "store_inv (snd (Memory_Get now m k))"
proof (cases "map_of (data m) k")
  case None
  with assms show ?thesis by (simp add: Memory_Get_def store_inv_def)
next
  case (Some e)
  with assms have ok: "entry_ok (k, e)"
    by (auto simp: store_inv_def list_all_iff dest!: map_of_SomeD)
  then have ok': "entry_ok (k, e\<lparr>Hits := Hits e + 1, UpdatedAt := now\<rparr>)"
    by (simp add: entry_ok_def)
  from assms Some ok' show ?thesis
    by (simp add: Memory_Get_def store_inv_def Let_def updateSize_def distinct_delete
        list_all_delete sumSizes_delete distinct_update list_all_update sumSizes_update_present)
qed

lemma entry_ok_NewEntry: "k \<noteq> [] \<Longrightarrow> v \<noteq> None \<Longrightarrow> entry_ok (k, NewEntry now k v ttl)"
  by (simp add: entry_ok_def NewEntry_def)

lemma store_inv_Set:
  assumes "store_inv m"
  shows "store_inv (snd (Memory_Set now m k v ttl))"
proof (cases "closed m \<or> k = [] \<or> v = None")
  case True
  with assms show ?thesis by (auto simp: Memory_Set_def)
next
  case False
  then obtain b where v: "v = Some b" and op: "\<not> closed m" and k: "k \<noteq> []" by auto
  obtain r m1 where mr: "makeRoom (Size (NewEntry now k v ttl)) m = (r, m1)"
    by (cases "makeRoom (Size (NewEntry now k v ttl)) m")
  from store_inv_makeRoom [OF mr assms] have inv1: "store_inv m1" .
  show ?thesis
  proof (cases r)
    case (Some err)
    with op k mr inv1 show ?thesis by (simp add: Memory_Set_def v)
  next
    case None
    from k have ok: "entry_ok (k, NewEntry now k v ttl)" by (simp add: entry_ok_NewEntry v)
    show ?thesis
    proof (cases "map_of (data m1) k")
      case old: None
      with op k mr None inv1 ok show ?thesis
        by (simp add: Memory_Set_def v store_inv_def Let_def updateSize_def distinct_update
            list_all_update sumSizes_update_absent)
    next
      case old: (Some oldEntry)
      with op k mr None inv1 ok show ?thesis
        by (simp add: Memory_Set_def v store_inv_def Let_def updateSize_def distinct_update
            list_all_update sumSizes_update_present)
    qed
  qed
qed

lemma store_inv_Delete: "store_inv m \<Longrightarrow> store_inv (snd (Memory_Delete m k))"
  by (cases "map_of (data m) k")
    (simp_all add: Memory_Delete_def store_inv_def updateSize_def Let_def distinct_delete
      list_all_delete sumSizes_delete)

lemma store_inv_Clear: "store_inv m \<Longrightarrow> store_inv (snd (Memory_Clear m))"
  by (simp add: Memory_Clear_def store_inv_def sumSizes_def)

lemma store_inv_Close: "store_inv m \<Longrightarrow> store_inv (snd (Memory_Close m))"
  by (simp add: Memory_Close_def Memory_Clear_def store_inv_def)

lemma store_inv_sweep: "store_inv m \<Longrightarrow> store_inv (sweep m ks)"
proof (induction ks arbitrary: m)
  case Nil
  then show ?case by simp
next
  case (Cons k ks)
  show ?case
  proof (cases "map_of (data m) k")
    case None
    with Cons show ?thesis by simp
  next
    case (Some e)
    from store_inv_remove [OF Cons.prems Some]
    have "store_inv (m\<lparr>data := AList.delete k (data m), totalSize := totalSize m - Size e,
        entryCount := c, stats := st\<rparr>)" for c st .
    then have "store_inv ((updateSize (- Size e) (m\<lparr>data := AList.delete k (data m)\<rparr>))
        \<lparr>stats := st\<rparr>)" for st
      by (simp add: updateSize_def Let_def store_inv_def)
    from Cons.IH [OF this] Some show ?thesis by (simp add: Let_def)
  qed
qed

lemma store_inv_cleanupExpired: "store_inv m \<Longrightarrow> store_inv (cleanupExpired now m)"
  by (simp add: cleanupExpired_def store_inv_sweep)

lemma reachable_store_inv: "reachable m \<Longrightarrow> store_inv m"
  by (induction rule: reachable.induct)
    (simp_all add: store_inv_NewMemory store_inv_Get store_inv_Set store_inv_Delete
      store_inv_Clear store_inv_Close store_inv_cleanupExpired)

section \<open>What a read and a write do to the map\<close>

lemmas ops_defs = Memory_Set_def Memory_Get_def makeRoom_def evictOne_def selectVictim_def
  lruStep_def lfuStep_def fifoStep_def updateSize_def NewEntry_def NewMemory_def
  NewStatsCollector_def DefaultMemoryConfig_def len_def IsExpired_def Clone_def
  RecordHit_def RecordMiss_def RecordEviction_def SetEntries_def SetSize_def Let_def

lemma Set_stored:
  assumes "Memory_Set now m k v ttl = (None, m')"
  shows "map_of (data m') k = Some (NewEntry now k v ttl)"
proof -
  obtain r m1 where mr: "makeRoom (Size (NewEntry now k v ttl)) m = (r, m1)"
    by (cases "makeRoom (Size (NewEntry now k v ttl)) m")
  from assms mr show ?thesis
    by (auto simp: Memory_Set_def Let_def updateSize_def update_conv'
        split: if_splits option.splits)
qed

lemma Set_others:
  assumes "Memory_Set now m k v ttl = (r, m')" and "k' \<noteq> k"
    and "map_of (data m') k' = Some e'"
  shows "map_of (data m) k' = Some e'"
proof -
  obtain r1 m1 where mr: "makeRoom (Size (NewEntry now k v ttl)) m = (r1, m1)"
    by (cases "makeRoom (Size (NewEntry now k v ttl)) m")
  from makeRoom_frame [OF mr] have le: "map_of (data m1) \<subseteq>\<^sub>m map_of (data m)" by simp
  from assms mr have "map_of (data m1) k' = Some e' \<or> map_of (data m) k' = Some e'"
    by (auto simp: Memory_Set_def Let_def updateSize_def update_conv'
        split: if_splits option.splits)
  with le show ?thesis by (auto simp: map_le_def dom_def)
qed

lemma Get_hit:
  assumes "Memory_Get now m k = (Inr c, m')"
  shows "\<exists>e. map_of (data m) k = Some e \<and> \<not> IsExpired now e \<and>
           c = Clone (e\<lparr>Hits := Hits e + 1, UpdatedAt := now\<rparr>) \<and>
           m' = m\<lparr>data := AList.update k (e\<lparr>Hits := Hits e + 1, UpdatedAt := now\<rparr>) (data m),
                   stats := RecordHit (stats m)\<rparr>"
  using assms
  by (auto simp: Memory_Get_def Let_def split: if_splits option.splits)

lemma Get_miss:
  assumes "Memory_Get now m k = (Inl err, m')"
  shows "map_of (data m') \<subseteq>\<^sub>m map_of (data m)"
  using assms
  by (auto simp: Memory_Get_def Let_def updateSize_def delete_conv' map_le_def
      split: if_splits option.splits)

section \<open>Reading: expired entries and the empty key\<close>

text \<open>
  C1, as the claim states it, fails at the instant of expiry. The specification calls an
  entry expired from \<open>now = expires_at\<close> on; \<open>IsExpired\<close> is \<^verbatim>\<open>time.Now().After(ExpiresAt)\<close>.
  An entry set at 1 with a time to live of 5 and read at 6 is returned: a hit is counted,
  no miss and no eviction, and the entry stays in the map.
\<close>

theorem Get_at_expiry_instant:
  "(let m = snd (Memory_Set 1 (NewMemory DefaultMemoryConfig) ''k'' (Some ''v'') 5);
        r = Memory_Get 6 m ''k''
    in map_of (data m) ''k'' = Some (NewEntry 1 ''k'' (Some ''v'') 5) \<and>
       spec_expired 6 (NewEntry 1 ''k'' (Some ''v'') 5) \<and>
       fst r = Inr \<lparr>Key = ''k'', Value = Some ''v'', CreatedAt = 1, UpdatedAt = 6,
                     ExpiresAt = Some 6, TTL = 5, Hits = 1, Size = 1\<rparr> \<and>
       map fst (data (snd r)) = [''k''] \<and>
       hits (stats (snd r)) = 1 \<and> misses (stats (snd r)) = 0 \<and> evictions (stats (snd r)) = 0)"
  by (simp add: ops_defs spec_expired_def)

text \<open>
  C1, amended. On an open cache, for a stored entry with the expiry time \<open>t\<close>: when
  \<open>t < now\<close>, \<open>Get\<close> returns the error \<open>ErrExpired\<close> (which is not \<open>ErrNotFound\<close>) and no
  entry, removes the key from the map and leaves every other key as it was, and adds one
  to the eviction counter and one to the miss counter, the hit counter staying the same;
  when \<open>now \<le> t\<close>, the instant \<open>now = t\<close> included, \<open>Get\<close> returns the entry with its
  value, keeps it in the map and counts a hit, and no miss and no eviction.
\<close>

theorem Get_expired:
  assumes "store_inv m" and "\<not> closed m"
    and "map_of (data m) k = Some e" and "ExpiresAt e = Some t"
  shows "(t < now \<longrightarrow>
           (\<exists>m'. Memory_Get now m k = (Inl (NewError ''Get'' k ErrExpired), m') \<and>
              ErrExpired \<noteq> ErrNotFound \<and>
              map_of (data m') k = None \<and>
              (\<forall>k'. k' \<noteq> k \<longrightarrow> map_of (data m') k' = map_of (data m) k') \<and>
              evictions (stats m') = evictions (stats m) + 1 \<and>
              misses (stats m') = misses (stats m) + 1 \<and>
              hits (stats m') = hits (stats m))) \<and>
         (now \<le> t \<longrightarrow>
           (\<exists>c m'. Memory_Get now m k = (Inr c, m') \<and> Value c = Value e \<and>
              (\<exists>e'. map_of (data m') k = Some e' \<and> Value e' = Value e) \<and>
              hits (stats m') = hits (stats m) + 1 \<and>
              misses (stats m') = misses (stats m) \<and>
              evictions (stats m') = evictions (stats m)))"
proof -
  from assms(1,3) have k: "k \<noteq> []" and v: "Value e \<noteq> None" by (simp_all add: store_inv_key)
  from v obtain b where b: "Value e = Some b" by auto
  show ?thesis
  proof (intro conjI impI)
    assume "t < now"
    with k assms(2-4)
    show "\<exists>m'. Memory_Get now m k = (Inl (NewError ''Get'' k ErrExpired), m') \<and>
              ErrExpired \<noteq> ErrNotFound \<and>
              map_of (data m') k = None \<and>
              (\<forall>k'. k' \<noteq> k \<longrightarrow> map_of (data m') k' = map_of (data m) k') \<and>
              evictions (stats m') = evictions (stats m) + 1 \<and>
              misses (stats m') = misses (stats m) + 1 \<and>
              hits (stats m') = hits (stats m)"
      by (simp add: Memory_Get_def Let_def IsExpired_def updateSize_def RecordMiss_def
          RecordEviction_def SetEntries_def SetSize_def delete_conv')
  next
    assume "now \<le> t"
    with k assms(2-4) b
    show "\<exists>c m'. Memory_Get now m k = (Inr c, m') \<and> Value c = Value e \<and>
              (\<exists>e'. map_of (data m') k = Some e' \<and> Value e' = Value e) \<and>
              hits (stats m') = hits (stats m) + 1 \<and>
              misses (stats m') = misses (stats m) \<and>
              evictions (stats m') = evictions (stats m)"
      by (simp add: Memory_Get_def Let_def IsExpired_def Clone_def RecordHit_def update_conv')
  qed
qed

theorem Get_expired_witness:
  "Memory_Get 10 (snd (Memory_Set 1 (NewMemory DefaultMemoryConfig) ''k'' (Some ''v'') 5)) ''k''
   = (Inl (NewError ''Get'' ''k'' ErrExpired),
      \<lparr>data = [],
       stats = \<lparr>hits = 0, misses = 1, evictions = 1, entries = 0, size_sc = 0, errors = 0\<rparr>,
       config = DefaultMemoryConfig, totalSize = 0, entryCount = 0, closed = False\<rparr>) \<and>
   fst (Memory_Get 6 (snd (Memory_Set 1 (NewMemory DefaultMemoryConfig) ''k'' (Some ''v'') 5)) ''k'')
   = Inr \<lparr>Key = ''k'', Value = Some ''v'', CreatedAt = 1, UpdatedAt = 6,
           ExpiresAt = Some 6, TTL = 5, Hits = 1, Size = 1\<rparr>"
  using Get_expired [of "snd (Memory_Set 1 (NewMemory DefaultMemoryConfig) ''k'' (Some ''v'') 5)"
      "''k''" "NewEntry 1 ''k'' (Some ''v'') 5" 6 10]
    Get_expired [of "snd (Memory_Set 1 (NewMemory DefaultMemoryConfig) ''k'' (Some ''v'') 5)"
      "''k''" "NewEntry 1 ''k'' (Some ''v'') 5" 6 6]
  by (simp add: ops_defs store_inv_def entry_ok_def sumSizes_def)

text \<open>
  C10. On an open cache, \<open>Get\<close> of the empty key returns the error \<open>ErrInvalidKey\<close> (which
  is not \<open>ErrNotFound\<close>) and the state it was given: no counter changes, so neither a hit
  nor a miss is recorded.
\<close>

theorem Get_empty_key:
  "\<not> closed m \<Longrightarrow>
   Memory_Get now m [] = (Inl (NewError ''Get'' [] ErrInvalidKey), m) \<and>
   ErrInvalidKey \<noteq> ErrNotFound"
  by (simp add: Memory_Get_def)

theorem Get_empty_key_witness:
  "Memory_Get 3 (NewMemory DefaultMemoryConfig) [] =
     (Inl (NewError ''Get'' [] ErrInvalidKey), NewMemory DefaultMemoryConfig)"
  using Get_empty_key [of "NewMemory DefaultMemoryConfig" 3]
  by (simp add: NewMemory_def)

section \<open>The access count\<close>

text \<open>
  C3, as the claim states it, fails: \<open>Set\<close> stores the entry that \<open>NewEntry\<close> builds, whose
  \<open>Hits\<close> is 0. After \<open>Set k\<close>, \<open>Get k\<close> (count 1) and \<open>Set k\<close> again, the stored count is 0.
\<close>

theorem overwrite_resets_Hits:
  "(let m0 = NewMemory DefaultMemoryConfig;
        m1 = snd (Memory_Set 1 m0 ''k'' (Some ''v'') 0);
        m2 = snd (Memory_Get 2 m1 ''k'');
        r = Memory_Set 3 m2 ''k'' (Some ''w'') 0
    in map (\<lambda>kv. Hits (snd kv)) (data m2) = [1] \<and> fst r = None \<and>
       map (\<lambda>kv. Hits (snd kv)) (data (snd r)) = [0])"
  by (simp add: ops_defs)

text \<open>
  C3, amended. A successful \<open>Set k\<close> leaves under \<open>k\<close> an entry whose access count is 0,
  whatever was stored before; a \<open>Set\<close> changes no entry stored under another key (it may
  evict it); a successful \<open>Get k\<close> adds exactly one to the count stored under \<open>k\<close>, returns
  the new count and changes no other key; a failed \<open>Get\<close> changes no stored entry (it may
  remove the expired one).
\<close>

theorem access_count:
  "(Memory_Set now m k v ttl = (None, m') \<longrightarrow>
      (\<exists>e. map_of (data m') k = Some e \<and> Hits e = 0)) \<and>
   (\<forall>k' e'. k' \<noteq> k \<longrightarrow> map_of (data (snd (Memory_Set now m k v ttl))) k' = Some e' \<longrightarrow>
      map_of (data m) k' = Some e') \<and>
   (\<forall>c m''. Memory_Get now m k = (Inr c, m'') \<longrightarrow>
      (\<exists>e. map_of (data m) k = Some e \<and> Hits c = Hits e + 1 \<and>
           (\<exists>e''. map_of (data m'') k = Some e'' \<and> Hits e'' = Hits e + 1) \<and>
           (\<forall>k'. k' \<noteq> k \<longrightarrow> map_of (data m'') k' = map_of (data m) k'))) \<and>
   (\<forall>err m''. Memory_Get now m k = (Inl err, m'') \<longrightarrow>
      map_of (data m'') \<subseteq>\<^sub>m map_of (data m))"
proof (intro conjI allI impI)
  assume "Memory_Set now m k v ttl = (None, m')"
  from Set_stored [OF this] show "\<exists>e. map_of (data m') k = Some e \<and> Hits e = 0"
    by (simp add: NewEntry_def)
next
  fix k' e'
  assume "k' \<noteq> k" and "map_of (data (snd (Memory_Set now m k v ttl))) k' = Some e'"
  with Set_others [of now m k v ttl "fst (Memory_Set now m k v ttl)"
      "snd (Memory_Set now m k v ttl)" k' e']
  show "map_of (data m) k' = Some e'" by simp
next
  fix c m''
  assume "Memory_Get now m k = (Inr c, m'')"
  from Get_hit [OF this]
  show "\<exists>e. map_of (data m) k = Some e \<and> Hits c = Hits e + 1 \<and>
           (\<exists>e''. map_of (data m'') k = Some e'' \<and> Hits e'' = Hits e + 1) \<and>
           (\<forall>k'. k' \<noteq> k \<longrightarrow> map_of (data m'') k' = map_of (data m) k')"
    by (auto simp: Clone_def update_conv')
next
  fix err m''
  assume "Memory_Get now m k = (Inl err, m'')"
  from Get_miss [OF this] show "map_of (data m'') \<subseteq>\<^sub>m map_of (data m)" .
qed

theorem access_count_witness:
  "fst (Memory_Set 3 (snd (Memory_Get 2 (snd (Memory_Set 1 (NewMemory DefaultMemoryConfig)
          ''k'' (Some ''v'') 0)) ''k'')) ''k'' (Some ''w'') 0) = None \<and>
   (\<exists>e. map_of (data (snd (Memory_Set 3 (snd (Memory_Get 2 (snd (Memory_Set 1
          (NewMemory DefaultMemoryConfig) ''k'' (Some ''v'') 0)) ''k'')) ''k'' (Some ''w'') 0)))
          ''k'' = Some e \<and> Hits e = 0) \<and>
   (\<exists>c m''. Memory_Get 2 (snd (Memory_Set 1 (NewMemory DefaultMemoryConfig)
          ''k'' (Some ''v'') 0)) ''k'' = (Inr c, m'') \<and> Hits c = 1)"
  using access_count [of 3 "snd (Memory_Get 2 (snd (Memory_Set 1 (NewMemory DefaultMemoryConfig)
          ''k'' (Some ''v'') 0)) ''k'')" "''k''" "Some ''w''" 0
        "snd (Memory_Set 3 (snd (Memory_Get 2 (snd (Memory_Set 1 (NewMemory DefaultMemoryConfig)
          ''k'' (Some ''v'') 0)) ''k'')) ''k'' (Some ''w'') 0)"]
  by (simp add: ops_defs)

section \<open>The gauges\<close>

text \<open>
  C2 at a failing input: on a new cache, \<open>Set\<close> of a value of length 0 stores an entry,
  and \<open>updateSize 0\<close> changes no count: the map holds one entry, \<open>entryCount\<close> is 0 and
  \<open>Stats\<close> reports no entry.
\<close>

theorem Set_empty_value_miscounts:
  "Memory_Set 1 (NewMemory DefaultMemoryConfig) ''k'' (Some []) 0 =
     (None,
      \<lparr>data = [(''k'', \<lparr>Key = ''k'', Value = Some [], CreatedAt = 1, UpdatedAt = 1,
                        ExpiresAt = None, TTL = 0, Hits = 0, Size = 0\<rparr>)],
       stats = NewStatsCollector, config = DefaultMemoryConfig,
       totalSize = 0, entryCount = 0, closed = False\<rparr>) \<and>
   Memory_Stats (snd (Memory_Set 1 (NewMemory DefaultMemoryConfig) ''k'' (Some []) 0)) =
     Inr \<lparr>Stats_Hits = 0, Stats_Misses = 0, Stats_Evictions = 0, Stats_Entries = 0,
          Stats_Size = 0, Stats_Errors = 0\<rparr>"
  by (simp add: ops_defs Memory_Stats_def StatsCollector_Stats_def)

text \<open>
  C4 at a failing input: with \<open>MaxEntries = 2\<close> and the recency policy, a cache holding
  \<open>b\<close> and \<open>a\<close> overwrites \<open>a\<close>; \<open>makeRoom\<close> sees \<open>entryCount = MaxEntries\<close> and evicts \<open>b\<close>.
  One entry is left, the eviction counter is 1, and \<open>totalSize\<close> stays 2 where the new
  value is one byte longer than the old one.
\<close>

theorem overwrite_at_capacity_evicts:
  "(let m0 = NewMemory \<lparr>MaxMemory = 0, MaxEntries = 2, CleanupInterval = 0,
                        EvictionPolicy = EvictionLRU\<rparr>;
        m1 = snd (Memory_Set 1 m0 ''b'' (Some ''1'') 0);
        m2 = snd (Memory_Set 2 m1 ''a'' (Some ''1'') 0);
        r = Memory_Set 3 m2 ''a'' (Some ''22'') 0
    in map fst (data m2) = [''b'', ''a''] \<and> entryCount m2 = 2 \<and> totalSize m2 = 2 \<and>
       evictions (stats m2) = 0 \<and>
       fst r = None \<and> map fst (data (snd r)) = [''a''] \<and> entryCount (snd r) = 1 \<and>
       totalSize (snd r) = 2 \<and> evictions (stats (snd r)) = 1)"
  by (simp add: ops_defs)

section \<open>A negative time to live\<close>






section \<open>A value that cannot fit\<close>

lemma sumSizes_nonneg: "list_all entry_ok al \<Longrightarrow> 0 \<le> sumSizes al"
  by (induction al) (auto simp: sumSizes_def entry_ok_def len_nonneg)

lemma evictLoop_exceeds:
  assumes "store_inv m" and "MaxMemory (config m) < n"
  shows "\<exists>m'. evictLoop n m = (Some (Bare ErrMemoryLimit), m') \<and> data m' = []"
  using assms
proof (induction n m rule: evictLoop.induct)
  case (1 n m)
  from "1.prems" have "0 \<le> totalSize m" by (simp add: store_inv_def sumSizes_nonneg)
  with "1.prems" have over: "totalSize m + n > MaxMemory (config m)" by simp
  show ?case
  proof (cases "data m = []")
    case True
    with over show ?thesis by (simp add: evictLoop.simps evictOne_empty)
  next
    case False
    from "1.prems" have "list_all entry_ok (data m)" by (simp add: store_inv_def)
    from evictOne_success [OF False this] obtain k e
      where ev: "evictOne m = (None, evicted m k e)" by blast
    from store_inv_evictOne [OF "1.prems"(1) ev] have inv: "store_inv (evicted m k e)" .
    from "1.prems"(2) have "MaxMemory (config (evicted m k e)) < n" by (simp add: evicted_def)
    from "1.IH" [OF over ev [symmetric] refl inv this] over ev show ?thesis
      by (simp add: evictLoop.simps)
  qed
qed

text \<open>
  C6. On an open cache with a memory limit, \<open>Set\<close> of a value longer than the limit
  evicts every entry (each eviction still leaves \<open>totalSize + newSize\<close> above the
  limit, \<open>totalSize\<close> being the sum of the stored sizes), finds no victim in the empty map
  and returns \<open>ErrMemoryLimit\<close>; the entry is not inserted.
\<close>

theorem Set_capacity_exceeded:
  assumes "store_inv m" and "\<not> closed m" and "k \<noteq> []"
    and "0 < MaxMemory (config m)" and "MaxMemory (config m) < int (length b)"
  shows "\<exists>m'. Memory_Set now m k (Some b) ttl = (Some (NewError ''Set'' k ErrMemoryLimit), m') \<and>
           data m' = [] \<and> map_of (data m') k = None"
proof -
  let ?n = "Size (NewEntry now k (Some b) ttl)"
  have n: "?n = int (length b)" by (simp add: NewEntry_def len_def)
  have "\<exists>m'. makeRoom ?n m = (Some (Bare ErrMemoryLimit), m') \<and> data m' = []"
  proof (cases "MaxEntries (config m) > 0 \<and> entryCount m \<ge> MaxEntries (config m)")
    case False
    with evictLoop_exceeds [OF assms(1), of ?n] assms(4,5) n show ?thesis
      by (auto simp: makeRoom_def)
  next
    case True
    show ?thesis
    proof (cases "data m = []")
      case True2: True
      with True show ?thesis by (simp add: makeRoom_def evictOne_empty)
    next
      case False
      from assms(1) have "list_all entry_ok (data m)" by (simp add: store_inv_def)
      from evictOne_success [OF False this] obtain k' e
        where ev: "evictOne m = (None, evicted m k' e)" by blast
      from store_inv_evictOne [OF assms(1) ev] have inv: "store_inv (evicted m k' e)" .
      have cfg: "config (evicted m k' e) = config m" by (simp add: evicted_def)
      from evictLoop_exceeds [OF inv, of ?n] assms(4,5) n cfg True ev show ?thesis
        by (auto simp: makeRoom_def)
    qed
  qed
  then obtain m' where "makeRoom ?n m = (Some (Bare ErrMemoryLimit), m')" and "data m' = []"
    by blast
  with assms(2,3) show ?thesis by (simp add: Memory_Set_def)
qed

theorem Set_capacity_exceeded_witness:
  "Memory_Set 3
     (snd (Memory_Set 1
        (NewMemory \<lparr>MaxMemory = 4, MaxEntries = 0, CleanupInterval = 0,
                     EvictionPolicy = EvictionFIFO\<rparr>) ''a'' (Some ''xy'') 0))
     ''k'' (Some ''12345'') 0
   = (Some (NewError ''Set'' ''k'' ErrMemoryLimit),
      \<lparr>data = [],
       stats = \<lparr>hits = 0, misses = 0, evictions = 1, entries = 1, size_sc = 2, errors = 0\<rparr>,
       config = \<lparr>MaxMemory = 4, MaxEntries = 0, CleanupInterval = 0, EvictionPolicy = EvictionFIFO\<rparr>,
       totalSize = 0, entryCount = 0, closed = False\<rparr>)"
  using Set_capacity_exceeded [of "snd (Memory_Set 1
        (NewMemory \<lparr>MaxMemory = 4, MaxEntries = 0, CleanupInterval = 0,
                     EvictionPolicy = EvictionFIFO\<rparr>) ''a'' (Some ''xy'') 0)" "''k''" "''12345''" 3 0]
  by (simp add: ops_defs evictLoop.simps store_inv_def entry_ok_def sumSizes_def)

section \<open>Keys and patterns\<close>

lemma HasPrefix_prefix: "HasPrefix s pre = prefix pre s"
  by (auto simp: HasPrefix_def prefix_def) (metis append_eq_conv_conj)

lemma HasSuffix_suffix: "HasSuffix s suf = suffix suf s"
proof
  assume "HasSuffix s suf"
  then have "s = take (length s - length suf) s @ suf"
    by (metis HasSuffix_def append_take_drop_id)
  then show "suffix suf s" by (metis suffixI)
next
  assume "suffix suf s"
  then obtain ys where "s = ys @ suf" by (auto simp: suffix_def)
  then show "HasSuffix s suf" by (simp add: HasSuffix_def)
qed

lemma HasSuffix_star: "HasSuffix p ''*'' = (p \<noteq> [] \<and> last p = CHR ''*'')"
  by (cases p rule: rev_cases) (auto simp: HasSuffix_def)

lemma HasPrefix_star: "HasPrefix p ''*'' = (p \<noteq> [] \<and> hd p = CHR ''*'')"
  by (cases p) (auto simp: HasPrefix_def)

lemma TrimSuffix_star: "p \<noteq> [] \<Longrightarrow> last p = CHR ''*'' \<Longrightarrow> TrimSuffix p ''*'' = butlast p"
  by (cases p rule: rev_cases) (auto simp: TrimSuffix_def HasSuffix_def)

lemma TrimPrefix_star: "p \<noteq> [] \<Longrightarrow> hd p = CHR ''*'' \<Longrightarrow> TrimPrefix p ''*'' = tl p"
  by (cases p) (auto simp: TrimPrefix_def HasPrefix_def)

lemma matchPattern_ordered: "matchPattern k p = ordered_match p k"
proof (cases "p = ''*''")
  case True
  then show ?thesis by (simp add: matchPattern_def ordered_match_def)
next
  case False
  show ?thesis
  proof (cases "p \<noteq> [] \<and> last p = CHR ''*''")
    case True
    with False have "matchPattern k p = HasPrefix k (butlast p)"
      by (simp add: matchPattern_def HasSuffix_star TrimSuffix_star)
    with False True show ?thesis by (simp add: ordered_match_def HasPrefix_prefix)
  next
    case nostar: False
    show ?thesis
    proof (cases "p \<noteq> [] \<and> hd p = CHR ''*''")
      case True
      with False nostar have "matchPattern k p = HasSuffix k (tl p)"
        by (simp add: matchPattern_def HasSuffix_star HasPrefix_star TrimPrefix_star)
      with False nostar True show ?thesis by (simp add: ordered_match_def HasSuffix_suffix)
    next
      case nohead: False
      from nostar have a: "HasSuffix p ''*'' = False" by (simp add: HasSuffix_star)
      from nohead have b: "HasPrefix p ''*'' = False" by (simp add: HasPrefix_star)
      from nostar have c: "(p \<noteq> [] \<and> last p = CHR ''*'') = False" by simp
      from nohead have d: "(p \<noteq> [] \<and> hd p = CHR ''*'') = False" by simp
      show ?thesis unfolding matchPattern_def ordered_match_def a b c d by simp
    qed
  qed
qed

text \<open>
  C5, as the claim states it, fails twice. At the instant of expiry the specification
  calls an entry expired and \<open>Keys\<close> still returns its key: set at 1 with a time to live
  of 5, the key is listed at 6. And a pattern that both starts and ends with \<open>*\<close> is a
  prefix pattern to the code: the key \<open>xa*\<close> ends with \<open>a*\<close>, and \<open>Keys\<close> with the pattern
  \<open>*a*\<close> does not return it.
\<close>

theorem Keys_beyond_claim:
  "(let m = snd (Memory_Set 1 (NewMemory DefaultMemoryConfig) ''k'' (Some ''v'') 5)
    in map_of (data m) ''k'' = Some (NewEntry 1 ''k'' (Some ''v'') 5) \<and>
       spec_expired 6 (NewEntry 1 ''k'' (Some ''v'') 5) \<and>
       Memory_Keys 6 m ''*'' = Inr [''k'']) \<and>
   (let m = snd (Memory_Set 1 (NewMemory DefaultMemoryConfig) ''xa*'' (Some ''v'') 0)
    in map fst (data m) = [''xa*''] \<and> suffix ''a*'' ''xa*'' \<and>
       Memory_Keys 2 m ''*a*'' = Inr [])"
  by (simp add: ops_defs spec_expired_def Memory_Keys_def matchPattern_def HasSuffix_def
      HasPrefix_def TrimSuffix_def TrimPrefix_def suffix_def)

text \<open>
  C5, amended. On an open cache, \<open>Keys\<close> returns, each once, exactly the stored keys whose
  entry has no expiry time or an expiry time not before \<open>now\<close> (an entry is still listed
  at \<open>now = expires_at\<close>) and which the pattern matches, the four cases of the grammar
  taken in order.
\<close>

theorem Keys_spec:
  assumes "store_inv m" and "\<not> closed m"
  shows "\<exists>ks. Memory_Keys now m p = Inr ks \<and> distinct ks \<and>
           set ks = {k. \<exists>e. map_of (data m) k = Some e \<and>
                        (case ExpiresAt e of None \<Rightarrow> True | Some t \<Rightarrow> now \<le> t) \<and>
                        ordered_match p k}"
proof -
  from assms(1) have d: "distinct (map fst (data m))" by (simp add: store_inv_def)
  have ex: "(\<not> IsExpired now e) = (case ExpiresAt e of None \<Rightarrow> True | Some t \<Rightarrow> now \<le> t)" for e
    by (auto simp: IsExpired_def split: option.splits)
  let ?ks = "map fst (filter (\<lambda>(k, entry). matchPattern k p \<and> \<not> IsExpired now entry) (data m))"
  have "distinct ?ks" using d by (simp add: distinct_map_filter)
  moreover have "set ?ks = {k. \<exists>e. map_of (data m) k = Some e \<and>
                        (case ExpiresAt e of None \<Rightarrow> True | Some t \<Rightarrow> now \<le> t) \<and>
                        ordered_match p k}"
    using d by (auto simp: matchPattern_ordered image_iff ex [symmetric])
  ultimately show ?thesis using assms(2) by (simp add: Memory_Keys_def)
qed

theorem Keys_spec_witness:
  "Memory_Keys 10
     (snd (Memory_Set 2 (snd (Memory_Set 1 (NewMemory DefaultMemoryConfig)
        ''light:1'' (Some ''on'') 5)) ''room:1'' (Some ''x'') 0)) ''*:1'' = Inr [''room:1'']"
  using Keys_spec [of "snd (Memory_Set 2 (snd (Memory_Set 1 (NewMemory DefaultMemoryConfig)
        ''light:1'' (Some ''on'') 5)) ''room:1'' (Some ''x'') 0)" 10 "''*:1''"]
  by (simp add: ops_defs Memory_Keys_def matchPattern_def HasSuffix_def HasPrefix_def
      TrimPrefix_def TrimSuffix_def store_inv_def entry_ok_def sumSizes_def)

section \<open>The counters of the sync engine\<close>

lemma handleError_kinds [simp]:
  "kind_sum (sync_stats (handleError now err s)) = kind_sum (sync_stats s)"
  "EventsProcessed (sync_stats (handleError now err s)) = EventsProcessed (sync_stats s)"
  by (simp_all add: handleError_def kind_sum_def)

lemma processEventData_kinds:
  assumes "processEventData marshal now s t d = (r, s')"
  shows "kind_sum (sync_stats s') = kind_sum (sync_stats s) + (if known_kind t then 1 else 0) \<and>
         EventsProcessed (sync_stats s') = EventsProcessed (sync_stats s)"
  using assms
  by (auto simp: processEventData_def Let_def handleAdd_def handleUpdate_def
      handleDelete_def known_kind_def kind_sum_def EventTypeAdd_def EventTypeUpdate_def
      EventTypeDelete_def split: if_splits option.splits prod.splits)

lemma processData_kinds:
  "kind_sum (sync_stats (processData marshal now t s ds)) =
     kind_sum (sync_stats s) + (if known_kind t then int (length ds) else 0) \<and>
   EventsProcessed (sync_stats (processData marshal now t s ds)) = EventsProcessed (sync_stats s)"
proof (induction ds arbitrary: s)
  case Nil
  show ?case by simp
next
  case (Cons d ds)
  obtain r s' where step: "processEventData marshal now s t d = (r, s')"
    by (cases "processEventData marshal now s t d")
  from processEventData_kinds [OF step] Cons.IH [of s'] Cons.IH [of "handleError now (the r) s'"] step
  show ?case by (cases r) auto
qed

lemma processEvent_kinds:
  "kind_sum (sync_stats (processEvent marshal now latency s ev)) =
     kind_sum (sync_stats s) + (if known_kind (Event_Type ev) then int (length (Event_Data ev)) else 0) \<and>
   EventsProcessed (sync_stats (processEvent marshal now latency s ev)) =
     EventsProcessed (sync_stats s) + 1"
  using processData_kinds [of marshal now "Event_Type ev"
      "s\<lparr>sync_stats := (sync_stats s)\<lparr>EventsProcessed := EventsProcessed (sync_stats s) + 1,
                                       LastEventTime := Some now\<rparr>\<rparr>" "Event_Data ev"]
  by (simp add: processEvent_def Let_def kind_sum_def)

lemma syncLoop_kinds:
  "kind_sum (sync_stats (syncLoop marshal s feed)) =
     kind_sum (sync_stats s) +
     (\<Sum>x\<leftarrow>feed. if known_kind (Event_Type (event_of x)) then int (length (Event_Data (event_of x))) else 0) \<and>
   EventsProcessed (sync_stats (syncLoop marshal s feed)) =
     EventsProcessed (sync_stats s) + int (length feed)"
proof (induction feed arbitrary: s)
  case Nil
  show ?case by simp
next
  case (Cons x feed)
  obtain now latency ev where x: "x = (now, latency, ev)" by (cases x)
  from Cons.IH [of "processEvent marshal now latency s ev"] processEvent_kinds [of marshal now latency s ev]
  show ?case by (simp add: x event_of_def)
qed

text \<open>
  C8, as the claim states it, fails. An event of a kind the engine does not know is
  counted in \<open>EventsProcessed\<close> and in no counter of a kind; an add event with two change
  records adds one to \<open>EventsProcessed\<close> and two to \<open>AddEvents\<close>.
\<close>

theorem sync_counts_differ:
  "(let s = syncLoop Some (NewSyncEngine (NewMemory DefaultMemoryConfig))
              [(1, 5, \<lparr>Event_Type = ''error'', Event_Data = [example_record]\<rparr>)]
    in EventsProcessed (sync_stats s) = 1 \<and>
       AddEvents (sync_stats s) + UpdateEvents (sync_stats s) + DeleteEvents (sync_stats s) = 0) \<and>
   (let s = syncLoop Some (NewSyncEngine (NewMemory DefaultMemoryConfig))
              [(1, 5, \<lparr>Event_Type = EventTypeAdd,
                        Event_Data = [example_record, example_record\<lparr>Data_ID := ''2''\<rparr>]\<rparr>)]
    in EventsProcessed (sync_stats s) = 1 \<and>
       AddEvents (sync_stats s) + UpdateEvents (sync_stats s) + DeleteEvents (sync_stats s) = 2)"
  by (simp add: processEvent_def processEventData_def handleAdd_def handleError_def
      NewSyncEngine_def EventTypeAdd_def EventTypeUpdate_def EventTypeDelete_def
      example_record_def Resource_def ops_defs)

text \<open>
  C8, amended. Over a feed whose events each carry exactly one change record, the
  counters \<open>AddEvents\<close>, \<open>UpdateEvents\<close> and \<open>DeleteEvents\<close> grow together by the number of
  events processed less the number of events of a kind other than add, update and
  delete: such an event grows \<open>EventsProcessed\<close> alone.
\<close>

theorem sync_kind_counts:
  assumes "\<forall>x \<in> set feed. length (Event_Data (event_of x)) = 1"
  shows "kind_sum (sync_stats (syncLoop marshal s feed)) - kind_sum (sync_stats s) +
           int (length (filter (\<lambda>x. \<not> known_kind (Event_Type (event_of x))) feed)) =
         EventsProcessed (sync_stats (syncLoop marshal s feed)) - EventsProcessed (sync_stats s)"
proof -
  have "(\<Sum>x\<leftarrow>feed. if known_kind (Event_Type (event_of x))
                     then int (length (Event_Data (event_of x))) else 0) +
        int (length (filter (\<lambda>x. \<not> known_kind (Event_Type (event_of x))) feed)) = int (length feed)"
    using assms by (induction feed) auto
  with syncLoop_kinds [of marshal s feed] show ?thesis by simp
qed

theorem sync_kind_counts_witness:
  "kind_sum (sync_stats (syncLoop Some (NewSyncEngine (NewMemory DefaultMemoryConfig))
      [(1, 5, \<lparr>Event_Type = EventTypeAdd, Event_Data = [example_record]\<rparr>),
       (2, 5, \<lparr>Event_Type = ''error'', Event_Data = [example_record]\<rparr>),
       (3, 5, \<lparr>Event_Type = EventTypeDelete, Event_Data = [example_record]\<rparr>)])) = 2 \<and>
   EventsProcessed (sync_stats (syncLoop Some (NewSyncEngine (NewMemory DefaultMemoryConfig))
      [(1, 5, \<lparr>Event_Type = EventTypeAdd, Event_Data = [example_record]\<rparr>),
       (2, 5, \<lparr>Event_Type = ''error'', Event_Data = [example_record]\<rparr>),
       (3, 5, \<lparr>Event_Type = EventTypeDelete, Event_Data = [example_record]\<rparr>)])) = 3"
  using sync_kind_counts [of
      "[(1, 5, \<lparr>Event_Type = EventTypeAdd, Event_Data = [example_record]\<rparr>),
        (2, 5, \<lparr>Event_Type = ''error'', Event_Data = [example_record]\<rparr>),
        (3, 5, \<lparr>Event_Type = EventTypeDelete, Event_Data = [example_record]\<rparr>)]"
      Some "NewSyncEngine (NewMemory DefaultMemoryConfig)"]
  by (simp add: processEvent_def processEventData_def handleAdd_def handleDelete_def
      handleError_def NewSyncEngine_def EventTypeAdd_def EventTypeUpdate_def EventTypeDelete_def
      example_record_def Resource_def kind_sum_def known_kind_def event_of_def
      Memory_Delete_def ops_defs)

section \<open>Saving and loading\<close>












lemma touched_fields [simp]:
  "Key (touched now e) = Key e"
  "ExpiresAt (touched now e) = ExpiresAt e"
  "Value (touched now e) = Some (case Value e of None \<Rightarrow> [] | Some b \<Rightarrow> b)"
  "IsExpired t (touched now e) = IsExpired t e"
  by (simp_all add: touched_def Clone_def IsExpired_def)






lemma gob_fields [simp]:
  "Key (gob_entry e) = Key e"
  "ExpiresAt (gob_entry e) = ExpiresAt e"
  "IsExpired t (gob_entry e) = IsExpired t e"
  "len (Value (gob_entry e)) = len (Value e)"
  by (simp_all add: gob_entry_def IsExpired_def len_def)





lemma store_inv_collect: "store_inv m \<Longrightarrow> store_inv (snd (collect now m ks))"
proof (induction ks arbitrary: m)
  case Nil
  then show ?case by simp
next
  case (Cons k ks)
  obtain r m' where g: "Memory_Get now m k = (r, m')" by (cases "Memory_Get now m k")
  with store_inv_Get [OF Cons.prems, of now k] have "store_inv m'" by simp
  from Cons.IH [OF this] g show ?case by (cases r) (auto split: prod.splits)
qed

lemma store_inv_loadEntries: "store_inv m \<Longrightarrow> store_inv (loadEntries now m es)"
  by (induction es arbitrary: m) (simp_all add: Let_def store_inv_Set)




end
